theory Spec2Isabelle
  imports Main "HOL-Library.AList"
begin

section \<open>Data model\<close>

text \<open>
  The parts of the DMMF data model that \<open>src/lib/prismix.ts\<close> reads. A field is
  identified by its name; everything else it carries (kind, type, modifiers, attributes,
  default) is opaque to the mixer and kept as one payload. A model has a name, an ordered
  array of fields (\<open>model_fields\<close>, the source's \<open>fields\<close>) and further attributes
  that the mixer never touches.
\<close>

record 'a Field =
  field_name :: string
  payload :: 'a

record ('a, 'b) Model =
  name :: string
  model_fields :: "'a Field list"
  attrs :: 'b

text \<open>
  What \<open>getSchema\<close> returns. \<open>enums\<close> is optional because the orchestrator guards
  it with \<open>!!schema.enums\<close>: \<open>None\<close> stands for an absent (undefined) value.
\<close>

record ('a, 'b, 'e, 'd, 'g) Schema =
  models :: "('a, 'b) Model list"
  enums :: "'e list option"
  datasources :: "'d list"
  generators :: "'g list"

record MixerOptions =
  mixer_input :: "string list"
  mixer_output :: string

datatype error = TypeError | IOError string | ParseError string | RenderError string

section \<open>Plain JavaScript objects used as dictionaries\<close>

text \<open>
  \<open>mixModels\<close> keeps its accumulator in \<open>const models: Record<string, Model> = {}\<close>, an
  ordinary object created by an object literal. Three facts about such an object are
  visible to the function:
  \<^item> its own properties are remembered in creation order, and assigning to an existing
    key keeps the key's position;
  \<^item> reading a key that is not an own property falls through to \<open>Object.prototype\<close>,
    which answers for a fixed set of names with a function (or, for \<open>__proto__\<close>, with
    the prototype object itself) and with \<open>undefined\<close> for every other name;
  \<^item> \<open>Object.values\<close> lists the values of the keys that are array indices first, in
    ascending numeric order, and then those of all other keys in creation order.
  The own properties are an association list in creation order.
\<close>

type_synonym 'v js_object = "(string \<times> 'v) list"

definition objectPrototypeKeys :: "string list" where
  "objectPrototypeKeys =
     [''constructor'', ''hasOwnProperty'', ''isPrototypeOf'', ''propertyIsEnumerable'',
      ''toLocaleString'', ''toString'', ''valueOf'', ''__defineGetter__'',
      ''__defineSetter__'', ''__lookupGetter__'', ''__lookupSetter__'', ''__proto__'']"

datatype 'v js_lookup = Undefined | Own 'v | Inherited

definition js_get :: "'v js_object \<Rightarrow> string \<Rightarrow> 'v js_lookup" where
  "js_get obj k =
     (case map_of obj k of
        Some v \<Rightarrow> Own v
      | None \<Rightarrow> if k \<in> set objectPrototypeKeys then Inherited else Undefined)"

definition js_set :: "'v js_object \<Rightarrow> string \<Rightarrow> 'v \<Rightarrow> 'v js_object" where
  "js_set obj k v = AList.update k v obj"

definition isDigit :: "char \<Rightarrow> bool" where
  "isDigit c = (c \<in> set ''0123456789'')"

definition digitsValue :: "string \<Rightarrow> nat" where
  "digitsValue s = fold (\<lambda>c n. 10 * n + (of_char c - 48)) s 0"

text \<open>
  An array index is a key that is the canonical decimal spelling of an integer between
  0 and \<open>2^32 - 2\<close>: digits only, no leading zero except for \<open>0\<close> itself.
\<close>

definition isArrayIndex :: "string \<Rightarrow> bool" where
  "isArrayIndex s =
     (s \<noteq> [] \<and> list_all isDigit s \<and> (length s = 1 \<or> hd s \<noteq> CHR ''0'')
      \<and> digitsValue s < 4294967295)"

definition ownPropertyOrder :: "'v js_object \<Rightarrow> 'v js_object" where
  "ownPropertyOrder obj =
     sort_key (\<lambda>p. digitsValue (fst p)) (filter (\<lambda>p. isArrayIndex (fst p)) obj)
     @ filter (\<lambda>p. \<not> isArrayIndex (fst p)) obj"

definition Object_values :: "'v js_object \<Rightarrow> 'v list" where
  "Object_values obj = map snd (ownPropertyOrder obj)"

section \<open>mixModels\<close>

text \<open>\<open>Array.prototype.indexOf\<close>: the first position of the element, or \<open>-1\<close>.\<close>

fun indexOf :: "'a list \<Rightarrow> 'a \<Rightarrow> int" where
  "indexOf [] x = - 1"
| "indexOf (y # ys) x =
     (if y = x then 0 else (let i = indexOf ys x in if i < 0 then - 1 else i + 1))"

text \<open>
  The inner loop over \<open>newModel.fields\<close>. \<open>existingFieldNames\<close> is computed once, before
  the loop, and is not touched by it; the second argument is \<open>existingModel.fields\<close>,
  the array the loop writes to. \<open>indexOf\<close> is only asked for a name that
  \<open>includes\<close> has found, so the index written to is never \<open>-1\<close>; and it is in range,
  because it is a position in \<open>existingFieldNames\<close>, which was mapped from that array,
  and the array never shrinks.
\<close>

fun mergeFields :: "string list \<Rightarrow> 'a Field list \<Rightarrow> 'a Field list \<Rightarrow> 'a Field list" where
  "mergeFields existingFieldNames existingFields [] = existingFields"
| "mergeFields existingFieldNames existingFields (newField # rest) =
     (if field_name newField \<in> set existingFieldNames
      then mergeFields existingFieldNames
             (existingFields[nat (indexOf existingFieldNames (field_name newField)) := newField])
             rest
      else mergeFields existingFieldNames (existingFields @ [newField]) rest)"

text \<open>
  One round of the outer loop. The model found under the name is an own property (a model
  stored by an earlier round), a value inherited from \<open>Object.prototype\<close> (truthy, and
  without a \<open>fields\<close> property, so that \<open>existingModel.fields.map\<close> throws a TypeError),
  or \<open>undefined\<close>. The stored model is mutated in place by the source; here the updated
  model is written back under its key, which keeps the key's position.

  Models and fields are values here. That is the source's behaviour as long as every
  model of the input list is an object of its own with a \<open>fields\<close> array of its own,
  which is what \<open>prismix\<close> passes in: each schema is parsed afresh by \<open>getDMMF\<close>. Only
  then is a write through \<open>existingModel\<close> invisible through every later \<open>newModel\<close>.
\<close>

definition mixStep ::
  "('a, 'b) Model \<Rightarrow> ('a, 'b) Model js_object \<Rightarrow> error + ('a, 'b) Model js_object" where
  "mixStep newModel mdls =
     (case js_get mdls (name newModel) of
        Own existingModel \<Rightarrow>
          (let existingFieldNames = map field_name (model_fields existingModel)
           in Inr (js_set mdls (name newModel)
                 (existingModel\<lparr>model_fields :=
                    mergeFields existingFieldNames (model_fields existingModel) (model_fields newModel)\<rparr>)))
      | Inherited \<Rightarrow> Inl TypeError
      | Undefined \<Rightarrow> Inr (js_set mdls (name newModel) newModel))"

fun mixLoop ::
  "('a, 'b) Model list \<Rightarrow> ('a, 'b) Model js_object \<Rightarrow> error + ('a, 'b) Model js_object" where
  "mixLoop [] mdls = Inr mdls"
| "mixLoop (newModel # rest) mdls =
     (case mixStep newModel mdls of Inl e \<Rightarrow> Inl e | Inr mdls' \<Rightarrow> mixLoop rest mdls')"

definition mixModels :: "('a, 'b) Model list \<Rightarrow> error + ('a, 'b) Model list" where
  "mixModels inputModels =
     (case mixLoop inputModels [] of Inl e \<Rightarrow> Inl e | Inr mdls \<Rightarrow> Inr (Object_values mdls))"

section \<open>The orchestrator\<close>

text \<open>
  Everything \<open>prismix\<close> imports is a parameter of the model: the file system calls, the
  Prisma SDK's \<open>getDMMF\<close> and \<open>getConfig\<close>, and the four functions of
  \<open>./deserializer\<close>. Each of them may fail (a rejected promise). \<open>'w\<close> is the state of
  the outside world; reading leaves it alone, and a write returns the world it leaves
  behind whether it succeeds or not. \<open>resolvePath\<close> stands for
  \<open>path.join(process.cwd(), _)\<close>.
\<close>

record ('a, 'b, 'e) Document =
  datamodel_models :: "('a, 'b) Model list"
  datamodel_enums :: "'e list option"

record ('d, 'g) Config =
  config_datasources :: "'d list"
  config_generators :: "'g list"

record ('w, 'a, 'b, 'e, 'd, 'g) env =
  resolvePath :: "string \<Rightarrow> string"
  readFile :: "'w \<Rightarrow> string \<Rightarrow> error + string"
  writeFile :: "string \<Rightarrow> string \<Rightarrow> 'w \<Rightarrow> (error + unit) \<times> 'w"
  getDMMF :: "string \<Rightarrow> error + ('a, 'b, 'e) Document"
  getConfig :: "string \<Rightarrow> error + ('d, 'g) Config"
  deserializeDatasources :: "'d list \<Rightarrow> error + string"
  deserializeGenerators :: "'g list \<Rightarrow> error + string"
  deserializeModels :: "('a, 'b) Model list \<Rightarrow> error + string"
  deserializeEnums :: "'e list \<Rightarrow> error + string"

record PrismixOptions =
  mixers :: "MixerOptions list"

definition getSchema ::
  "('w, 'a, 'b, 'e, 'd, 'g) env \<Rightarrow> 'w \<Rightarrow> string \<Rightarrow> error + ('a, 'b, 'e, 'd, 'g) Schema" where
  "getSchema env w schemaPath =
     (case readFile env w (resolvePath env schemaPath) of
        Inl e \<Rightarrow> Inl e
      | Inr schema \<Rightarrow>
          (case getDMMF env schema of
             Inl e \<Rightarrow> Inl e
           | Inr dmmf \<Rightarrow>
               (case getConfig env schema of
                  Inl e \<Rightarrow> Inl e
                | Inr config \<Rightarrow>
                    Inr \<lparr>models = datamodel_models dmmf,
                         enums = datamodel_enums dmmf,
                         datasources = config_datasources config,
                         generators = config_generators config\<rparr>)))"

text \<open>\<open>for (const input of mixer.input) schemasToMix.push(await getSchema(input))\<close>\<close>

fun loadSchemas ::
  "('w, 'a, 'b, 'e, 'd, 'g) env \<Rightarrow> 'w \<Rightarrow> string list
     \<Rightarrow> error + ('a, 'b, 'e, 'd, 'g) Schema list" where
  "loadSchemas env w [] = Inr []"
| "loadSchemas env w (inp # rest) =
     (case getSchema env w inp of
        Inl e \<Rightarrow> Inl e
      | Inr schema \<Rightarrow>
          (case loadSchemas env w rest of
             Inl e \<Rightarrow> Inl e
           | Inr schemas \<Rightarrow> Inr (schema # schemas)))"

text \<open>\<open>for (const schema of schemasToMix) models = [...models, ...schema.models]\<close>\<close>

definition flattenModels :: "('a, 'b, 'e, 'd, 'g) Schema list \<Rightarrow> ('a, 'b) Model list" where
  "flattenModels schemasToMix = fold (\<lambda>schema ms. ms @ models schema) schemasToMix []"

text \<open>\<open>!!schema.enums && (enums = [...enums, ...schema.enums])\<close>\<close>

definition reduceEnums :: "'e list option list \<Rightarrow> 'e list" where
  "reduceEnums sections =
     fold (\<lambda>schemaEnums es. case schemaEnums of None \<Rightarrow> es | Some new \<Rightarrow> es @ new) sections []"

text \<open>
  \<open>schema.datasources.length > 0 && (datasources = schema.datasources)\<close>, and the same
  loop over \<open>schema.generators\<close>.
\<close>

definition reduceSingletons :: "'c list list \<Rightarrow> 'c list" where
  "reduceSingletons sections = fold (\<lambda>l acc. if 0 < length l then l else acc) sections []"

text \<open>\<open>Array.prototype.join\<close> on an array of strings.\<close>

fun joinStrings :: "string \<Rightarrow> string list \<Rightarrow> string" where
  "joinStrings sep [] = []"
| "joinStrings sep [x] = x"
| "joinStrings sep (x # y # ys) = x @ sep @ joinStrings sep (y # ys)"

text \<open>
  The four renderings, awaited in the order of the array literal, then
  \<open>.filter((e) => e).join('\n\n\n')\<close>: the empty string is the only falsy string.
\<close>

definition renderSections ::
  "('w, 'a, 'b, 'e, 'd, 'g) env \<Rightarrow> 'd list \<Rightarrow> 'g list \<Rightarrow> ('a, 'b) Model list \<Rightarrow> 'e list
     \<Rightarrow> error + string list" where
  "renderSections env ds gs ms es =
     (case deserializeDatasources env ds of
        Inl e \<Rightarrow> Inl e
      | Inr d \<Rightarrow>
          (case deserializeGenerators env gs of
             Inl e \<Rightarrow> Inl e
           | Inr g \<Rightarrow>
               (case deserializeModels env ms of
                  Inl e \<Rightarrow> Inl e
                | Inr m \<Rightarrow>
                    (case deserializeEnums env es of
                       Inl e \<Rightarrow> Inl e
                     | Inr en \<Rightarrow> Inr [d, g, m, en]))))"

definition outputSchema :: "string list \<Rightarrow> string" where
  "outputSchema rendered =
     joinStrings ''\<newline>\<newline>\<newline>'' (filter (\<lambda>e. e \<noteq> []) rendered)"

text \<open>The body of the loop over \<open>options.mixers\<close>: one composition job.\<close>

definition runMixer ::
  "('w, 'a, 'b, 'e, 'd, 'g) env \<Rightarrow> MixerOptions \<Rightarrow> 'w \<Rightarrow> (error + unit) \<times> 'w" where
  "runMixer env mixer w =
     (case loadSchemas env w (mixer_input mixer) of
        Inl e \<Rightarrow> (Inl e, w)
      | Inr schemasToMix \<Rightarrow>
          (case mixModels (flattenModels schemasToMix) of
             Inl e \<Rightarrow> (Inl e, w)
           | Inr ms \<Rightarrow>
               (case renderSections env
                       (reduceSingletons (map datasources schemasToMix))
                       (reduceSingletons (map generators schemasToMix))
                       ms
                       (reduceEnums (map enums schemasToMix)) of
                  Inl e \<Rightarrow> (Inl e, w)
                | Inr rendered \<Rightarrow>
                    writeFile env (resolvePath env (mixer_output mixer))
                      (outputSchema rendered) w)))"

text \<open>
  \<open>for (const mixer of options.mixers) { ... }\<close> inside one \<open>async\<close> function, with no
  \<open>try\<close>: a rejected \<open>await\<close> in one round rejects the promise of \<open>prismix\<close> itself.
\<close>

fun prismixLoop ::
  "('w, 'a, 'b, 'e, 'd, 'g) env \<Rightarrow> MixerOptions list \<Rightarrow> 'w \<Rightarrow> (error + unit) \<times> 'w" where
  "prismixLoop env [] w = (Inr (), w)"
| "prismixLoop env (mixer # rest) w =
     (case runMixer env mixer w of
        (Inl e, w') \<Rightarrow> (Inl e, w')
      | (Inr u, w') \<Rightarrow> prismixLoop env rest w')"

definition prismix ::
  "('w, 'a, 'b, 'e, 'd, 'g) env \<Rightarrow> PrismixOptions \<Rightarrow> 'w \<Rightarrow> (error + unit) \<times> 'w" where
  "prismix env options w = prismixLoop env (mixers options) w"

section \<open>Notions the statements are written in\<close>

text \<open>
  The names of a list in the order of their first occurrence: the i-th element is the
  i-th distinct name met when reading the list from the left.
\<close>

fun firstSeen :: "'k list \<Rightarrow> 'k list" where
  "firstSeen [] = []"
| "firstSeen (k # ks) = k # filter (\<lambda>k'. k' \<noteq> k) (firstSeen ks)"

text \<open>
  The field list after reconciling the accumulated fields \<open>old\<close> with the fields
  \<open>new\<close> of a later model of the same name, written position by position. A new field
  aims at the first position that carries its name in \<open>old\<close>; position \<open>i\<close> ends up
  with the last new field that aims at it, or keeps its old field when none does; the new
  fields whose names do not occur in \<open>old\<close> follow, every one of them, in their order.
\<close>

definition aimsAt :: "'a Field list \<Rightarrow> nat \<Rightarrow> 'a Field \<Rightarrow> bool" where
  "aimsAt old i f =
     (i < length old \<and> field_name (old ! i) = field_name f
      \<and> field_name f \<notin> set (map field_name (take i old)))"

definition slotAfter :: "'a Field list \<Rightarrow> 'a Field list \<Rightarrow> nat \<Rightarrow> 'a Field" where
  "slotAfter old new i =
     (let aimed = filter (aimsAt old i) new in if aimed = [] then old ! i else last aimed)"

definition reconciled :: "'a Field list \<Rightarrow> 'a Field list \<Rightarrow> 'a Field list" where
  "reconciled old new =
     map (slotAfter old new) [0..<length old]
     @ filter (\<lambda>f. field_name f \<notin> set (map field_name old)) new"

text \<open>
  The Entity Merger as the specification words its contract: it is handed one entity
  list per fragment and walks the entities in stream order, fragment after fragment, with
  one mapping kept across the fragments. Each entity is treated by the round of
  \<open>mixModels\<close>.
\<close>

fun mixFragments ::
  "('a, 'b) Model list list \<Rightarrow> ('a, 'b) Model js_object
     \<Rightarrow> error + ('a, 'b) Model js_object" where
  "mixFragments [] mdls = Inr mdls"
| "mixFragments (entityList # rest) mdls =
     (case mixLoop entityList mdls of Inl e \<Rightarrow> Inl e | Inr mdls' \<Rightarrow> mixFragments rest mdls')"

definition mergeFragments :: "('a, 'b) Model list list \<Rightarrow> error + ('a, 'b) Model list" where
  "mergeFragments entityLists =
     (case mixFragments entityLists [] of
        Inl e \<Rightarrow> Inl e
      | Inr mdls \<Rightarrow> Inr (Object_values mdls))"

section \<open>Concrete data for the examples\<close>

definition mkField :: "string \<Rightarrow> nat \<Rightarrow> nat Field" where
  "mkField n p = \<lparr>field_name = n, payload = p\<rparr>"

definition mkModel :: "string \<Rightarrow> nat Field list \<Rightarrow> (nat, unit) Model" where
  "mkModel n fs = \<lparr>name = n, model_fields = fs, attrs = ()\<rparr>"

text \<open>
  An environment in memory: the world is the content of the files; a schema file holds
  one word, which \<open>getDMMF\<close> reads as the name of a model without fields and
  \<open>getConfig\<close> as the datasource; a section is rendered by writing its names one after
  the other. Reading a file that does not exist fails.
\<close>

type_synonym files = "string \<Rightarrow> string option"

definition memEnv :: "(files, nat, unit, string, string, string) env" where
  "memEnv =
     \<lparr>resolvePath = (\<lambda>p. ''/cwd/'' @ p),
      readFile = (\<lambda>w p. case w p of None \<Rightarrow> Inl (IOError p) | Some t \<Rightarrow> Inr t),
      writeFile = (\<lambda>p t w. (Inr (), w(p \<mapsto> t))),
      getDMMF = (\<lambda>t. Inr \<lparr>datamodel_models = [mkModel t []], datamodel_enums = Some []\<rparr>),
      getConfig = (\<lambda>t. Inr \<lparr>config_datasources = [t], config_generators = []\<rparr>),
      deserializeDatasources = (\<lambda>ds. Inr (concat ds)),
      deserializeGenerators = (\<lambda>gs. Inr (concat gs)),
      deserializeModels = (\<lambda>ms. Inr (concat (map name ms))),
      deserializeEnums = (\<lambda>es. Inr (concat es))\<rparr>"

definition someFiles :: files where
  "someFiles = [''/cwd/b.prisma'' \<mapsto> ''Post'']"

section \<open>Section Reducer\<close>

lemma reduceSingletons_snoc:
  "reduceSingletons (sections @ [l]) = (if l \<noteq> [] then l else reduceSingletons sections)"
  by (simp add: reduceSingletons_def)

lemma reduceEnums_eq_concat:
  "fold (\<lambda>schemaEnums es. case schemaEnums of None \<Rightarrow> es | Some new \<Rightarrow> es @ new) sections acc
     = acc @ concat (map (\<lambda>s. case s of None \<Rightarrow> [] | Some es \<Rightarrow> es) sections)"
  by (induction sections arbitrary: acc) (auto split: option.splits)

text \<open>
  C4. The singleton reduction, which the orchestrator applies to the datasources and,
  on its own, to the generators of the loaded fragments, returns the list of the last
  fragment whose list is not empty, and the empty list when there is none. In particular
  it maps \<open>[[], [c1], []]\<close> to \<open>[c1]\<close> and \<open>[[], []]\<close> to \<open>[]\<close>.
\<close>

theorem reduceSingletons_last_nonempty:
  fixes sections :: "'c list list" and c1 :: 'c
  shows "reduceSingletons sections =
           (let nonEmpty = filter (\<lambda>l. l \<noteq> []) sections
            in if nonEmpty = [] then [] else last nonEmpty)
         \<and> reduceSingletons [[], [c1], []] = [c1]
         \<and> reduceSingletons [[], []] = ([] :: 'c list)"
proof (intro conjI)
  show "reduceSingletons sections =
     (let nonEmpty = filter (\<lambda>l. l \<noteq> []) sections
      in if nonEmpty = [] then [] else last nonEmpty)"
  proof (induction sections rule: rev_induct)
    case Nil
    show ?case by (simp add: reduceSingletons_def)
  next
    case (snoc l sections)
    then show ?case by (simp add: reduceSingletons_snoc Let_def)
  qed
next
  show "reduceSingletons [[], [c1], []] = [c1]"
    by (simp add: reduceSingletons_def)
next
  show "reduceSingletons [[], []] = ([] :: 'c list)"
    by (simp add: reduceSingletons_def)
qed

theorem reduceSingletons_last_nonempty_witness:
  "reduceSingletons [[''pg''], [], [''sqlite'']] = [''sqlite'']"
  using reduceSingletons_last_nonempty [of "[[''pg''], [], [''sqlite'']]" "''c1''"]
  by (simp add: Let_def)

text \<open>
  C5. The enumeration reduction is the concatenation of the fragments' enumeration lists
  in fragment order: every entry of every fragment is kept, duplicates included, and
  nothing is merged by name, so that \<open>[[e1], [e1]]\<close> gives \<open>[e1, e1]\<close>. (A fragment
  whose \<open>enums\<close> is absent contributes nothing.)
\<close>

theorem reduceEnums_concat:
  fixes enumLists :: "'e list list" and sections :: "'e list option list" and e1 :: 'e
  shows "reduceEnums (map Some enumLists) = concat enumLists
         \<and> reduceEnums sections
             = concat (map (\<lambda>s. case s of None \<Rightarrow> [] | Some es \<Rightarrow> es) sections)
         \<and> reduceEnums [Some [e1], Some [e1]] = [e1, e1]"
proof -
  have general: "reduceEnums secs = concat (map (\<lambda>s. case s of None \<Rightarrow> [] | Some es \<Rightarrow> es) secs)"
    for secs :: "'e list option list"
    by (simp add: reduceEnums_def reduceEnums_eq_concat)
  have "reduceEnums (map Some enumLists) = concat enumLists"
    by (simp add: general comp_def)
  moreover have "reduceEnums [Some [e1], Some [e1]] = [e1, e1]"
    by (simp add: general)
  ultimately show ?thesis using general by blast
qed

theorem reduceEnums_concat_witness:
  "reduceEnums [Some [''Role''], None, Some [''Role'', ''Kind'']] = [''Role'', ''Role'', ''Kind'']"
  using reduceEnums_concat [of "[]" "[Some [''Role''], None, Some [''Role'', ''Kind'']]" "''e1''"]
  by simp

section \<open>Facts about indexOf\<close>

lemma indexOf_absent: "x \<notin> set xs \<Longrightarrow> indexOf xs x = - 1"
  by (induction xs) (auto simp: Let_def)

lemma indexOf_present: "x \<in> set xs \<Longrightarrow> 0 \<le> indexOf xs x \<and> nat (indexOf xs x) < length xs"
  by (induction xs) (auto simp: Let_def)

lemma indexOf_eq_iff:
  "x \<in> set xs \<Longrightarrow> nat (indexOf xs x) = i \<longleftrightarrow> i < length xs \<and> xs ! i = x \<and> x \<notin> set (take i xs)"
proof (induction xs arbitrary: i)
  case Nil
  then show ?case by simp
next
  case (Cons y ys)
  show ?case
  proof (cases "y = x")
    case True
    then show ?thesis by (cases i) auto
  next
    case False
    with Cons.prems have mem: "x \<in> set ys" by simp
    from indexOf_present [OF mem] have nn: "0 \<le> indexOf ys x" by simp
    show ?thesis
    proof (cases i)
      case 0
      with False nn show ?thesis by (simp add: Let_def)
    next
      case (Suc j)
      have "nat (indexOf ys x + 1) = Suc j \<longleftrightarrow> nat (indexOf ys x) = j" using nn by auto
      with Suc False nn Cons.IH [OF mem, of j] show ?thesis by (simp add: Let_def)
    qed
  qed
qed

section \<open>Facts about plain objects\<close>

lemma js_set_keys:
  "map fst (js_set obj k v) = (if k \<in> fst ` set obj then map fst obj else map fst obj @ [k])"
  by (simp add: js_set_def update_keys)

lemma map_of_Some_key: "map_of obj k = Some v \<Longrightarrow> k \<in> fst ` set obj"
  by (metis map_of_eq_None_iff option.distinct(1))

lemma js_set_named:
  "\<forall>p \<in> set obj. name (snd p) = fst p \<Longrightarrow> name v = k
     \<Longrightarrow> \<forall>p \<in> set (js_set obj k v). name (snd p) = fst p"
  unfolding js_set_def by (induction obj) auto

lemma map_of_named:
  "\<forall>p \<in> set obj. name (snd p) = fst p \<Longrightarrow> map_of obj k = Some v \<Longrightarrow> name v = k"
  by (induction obj) (auto split: if_splits)

lemma update_absent: "k \<notin> fst ` set al \<Longrightarrow> AList.update k v al = al @ [(k, v)]"
  by (induction al) auto

lemma map_insort_key:
  "map f (insort_key (\<lambda>x. g (f x)) x xs) = insort_key g (f x) (map f xs)"
  by (induction xs) auto

lemma map_sort_key:
  "map f (sort_key (\<lambda>x. g (f x)) xs) = sort_key g (map f xs)"
  by (induction xs) (auto simp: map_insort_key)

lemma ownPropertyOrder_keys:
  "map fst (ownPropertyOrder obj) =
     sort_key digitsValue (filter isArrayIndex (map fst obj))
     @ filter (\<lambda>k. \<not> isArrayIndex k) (map fst obj)"
  by (simp add: ownPropertyOrder_def map_sort_key filter_map comp_def)

lemma ownPropertyOrder_set: "set (ownPropertyOrder obj) = set obj"
  by (auto simp: ownPropertyOrder_def)

lemma Object_values_names:
  "\<forall>p \<in> set obj. name (snd p) = fst p
    \<Longrightarrow> map name (Object_values obj) = map fst (ownPropertyOrder obj)"
  by (simp add: Object_values_def ownPropertyOrder_set)

lemma ownPropertyOrder_distinct:
  "distinct (map fst obj) \<Longrightarrow> distinct (map fst (ownPropertyOrder obj))"
  by (auto simp: ownPropertyOrder_keys distinct_map_filter)

lemma ownPropertyOrder_no_index:
  "\<forall>p \<in> set obj. \<not> isArrayIndex (fst p) \<Longrightarrow> ownPropertyOrder obj = obj"
  by (simp add: ownPropertyOrder_def filter_id_conv filter_empty_conv)

lemma Object_values_single: "Object_values [(k, v)] = [v]"
  by (simp add: Object_values_def ownPropertyOrder_def)

section \<open>First-seen order\<close>

lemma firstSeen_set: "set (firstSeen ks) = set ks"
  by (induction ks) auto

lemma firstSeen_distinct: "distinct (firstSeen ks)"
  by (induction ks) (auto simp: firstSeen_set)

lemma firstSeen_id: "distinct ks \<Longrightarrow> firstSeen ks = ks"
proof (induction ks)
  case Nil
  show ?case by simp
next
  case (Cons k ks)
  then have "filter (\<lambda>k'. k' \<noteq> k) ks = ks" by (simp add: filter_id_conv) blast
  with Cons show ?case by simp
qed

lemma indexOf_Cons_other:
  "x \<in> set ks \<Longrightarrow> x \<noteq> k \<Longrightarrow> indexOf (k # ks) x = indexOf ks x + 1"
  using indexOf_present [of x ks] by (simp add: Let_def)

text \<open>
  \<open>firstSeen\<close> is the first-seen order: it has every element of the list once, and
  sorted by the position of the element's first occurrence in the list.
\<close>

lemma firstSeen_by_first_index:
  "sorted_wrt (\<lambda>a b. indexOf ks a < indexOf ks b) (firstSeen ks)"
proof (induction ks)
  case Nil
  show ?case by simp
next
  case (Cons k ks)
  let ?rest = "filter (\<lambda>k'. k' \<noteq> k) (firstSeen ks)"
  have members: "x \<in> set ks \<and> x \<noteq> k" if "x \<in> set ?rest" for x
    using that by (simp add: firstSeen_set)
  have "sorted_wrt (\<lambda>a b. indexOf ks a < indexOf ks b) ?rest"
    using Cons.IH by (rule sorted_wrt_filter)
  then have "sorted_wrt (\<lambda>a b. indexOf (k # ks) a < indexOf (k # ks) b) ?rest"
  proof (rule sorted_wrt_mono_rel [rotated])
    fix a b
    assume "a \<in> set ?rest" and "b \<in> set ?rest" and "indexOf ks a < indexOf ks b"
    with members [of a] members [of b]
    show "indexOf (k # ks) a < indexOf (k # ks) b"
      by (simp add: indexOf_Cons_other del: indexOf.simps)
  qed
  moreover have "indexOf (k # ks) k < indexOf (k # ks) b" if "b \<in> set ?rest" for b
    using members [OF that] indexOf_present [of b ks] by (auto simp: Let_def)
  ultimately show ?case by simp
qed

section \<open>The rounds of mixModels\<close>

lemma mixStep_Own:
  "map_of mdls (name m) = Some ex
    \<Longrightarrow> mixStep m mdls =
          Inr (js_set mdls (name m)
                 (ex\<lparr>model_fields :=
                      mergeFields (map field_name (model_fields ex)) (model_fields ex) (model_fields m)\<rparr>))"
  by (simp add: mixStep_def js_get_def)

lemma mixStep_Undefined:
  "name m \<notin> fst ` set mdls \<Longrightarrow> name m \<notin> set objectPrototypeKeys
    \<Longrightarrow> mixStep m mdls = Inr (js_set mdls (name m) m)"
  by (simp add: mixStep_def js_get_def map_of_eq_None_iff [THEN iffD2])

lemma mixStep_Inherited:
  "name m \<notin> fst ` set mdls \<Longrightarrow> name m \<in> set objectPrototypeKeys
    \<Longrightarrow> mixStep m mdls = Inl TypeError"
  by (simp add: mixStep_def js_get_def map_of_eq_None_iff [THEN iffD2])

lemma mixStep_cases:
  obtains (Own) ex where "map_of mdls (name m) = Some ex" "name m \<in> fst ` set mdls"
  | (Undefined) "name m \<notin> fst ` set mdls" "name m \<notin> set objectPrototypeKeys"
  | (Inherited) "name m \<notin> fst ` set mdls" "name m \<in> set objectPrototypeKeys"
  by (cases "map_of mdls (name m)") (auto simp: map_of_eq_None_iff dest: map_of_Some_key)

lemma mixStep_keys:
  assumes "mixStep m mdls = Inr mdls'"
  shows "map fst mdls' = (if name m \<in> fst ` set mdls then map fst mdls else map fst mdls @ [name m])"
proof (cases rule: mixStep_cases [of mdls m])
  case (Own ex)
  with assms have "mdls' = js_set mdls (name m)
      (ex\<lparr>model_fields :=
           mergeFields (map field_name (model_fields ex)) (model_fields ex) (model_fields m)\<rparr>)"
    by (simp add: mixStep_Own)
  with Own(2) show ?thesis by (simp add: js_set_keys)
next
  case Undefined
  with assms have "mdls' = js_set mdls (name m) m" by (simp add: mixStep_Undefined)
  with Undefined(1) show ?thesis by (simp add: js_set_keys)
next
  case Inherited
  with assms show ?thesis by (simp add: mixStep_Inherited)
qed

lemma mixStep_named:
  assumes step: "mixStep m mdls = Inr mdls'" and inv: "\<forall>p \<in> set mdls. name (snd p) = fst p"
  shows "\<forall>p \<in> set mdls'. name (snd p) = fst p"
proof (cases rule: mixStep_cases [of mdls m])
  case (Own ex)
  then have n: "name ex = name m" using map_of_named [OF inv] by simp
  from step Own have "\<exists>fs. mdls' = js_set mdls (name m) (ex\<lparr>model_fields := fs\<rparr>)"
    by (auto simp: mixStep_Own)
  then obtain fs where "mdls' = js_set mdls (name m) (ex\<lparr>model_fields := fs\<rparr>)" ..
  with n js_set_named [OF inv, of "ex\<lparr>model_fields := fs\<rparr>" "name m"] show ?thesis by simp
next
  case Undefined
  with step have "mdls' = js_set mdls (name m) m" by (simp add: mixStep_Undefined)
  with js_set_named [OF inv, of m "name m"] show ?thesis by simp
next
  case Inherited
  with step show ?thesis by (simp add: mixStep_Inherited)
qed

lemma mixStep_Inl_iff:
  "mixStep m mdls = Inl e \<longleftrightarrow>
     e = TypeError \<and> name m \<notin> fst ` set mdls \<and> name m \<in> set objectPrototypeKeys"
  by (cases rule: mixStep_cases [of mdls m])
     (auto simp: mixStep_Own mixStep_Undefined mixStep_Inherited)

lemma mixLoop_append:
  "mixLoop (xs @ ys) mdls = (case mixLoop xs mdls of Inl e \<Rightarrow> Inl e | Inr mdls' \<Rightarrow> mixLoop ys mdls')"
  by (induction xs arbitrary: mdls) (auto split: sum.splits)

lemma filter_known_key:
  "k \<in> A \<Longrightarrow> filter (\<lambda>x. x \<noteq> k \<and> x \<notin> A) xs = filter (\<lambda>x. x \<notin> A) xs"
  by (induction xs) auto

lemma mixLoop_keys:
  "mixLoop ms mdls = Inr out
    \<Longrightarrow> map fst out = map fst mdls @ filter (\<lambda>k. k \<notin> fst ` set mdls) (firstSeen (map name ms))"
proof (induction ms arbitrary: mdls)
  case Nil
  then show ?case by simp
next
  case (Cons m ms)
  from Cons.prems obtain mdls' where step: "mixStep m mdls = Inr mdls'" and rest: "mixLoop ms mdls' = Inr out"
    by (auto split: sum.splits)
  note ih = Cons.IH [OF rest]
  show ?case
  proof (cases "name m \<in> fst ` set mdls")
    case True
    with mixStep_keys [OF step] have k: "map fst mdls' = map fst mdls" by simp
    then have "fst ` set mdls' = fst ` set mdls" by (metis list.set_map)
    with ih True k show ?thesis by (simp add: filter_known_key)
  next
    case False
    with mixStep_keys [OF step] have k: "map fst mdls' = map fst mdls @ [name m]" by simp
    then have "fst ` set mdls' = insert (name m) (fst ` set mdls)"
      by (metis list.set_map set_append list.simps(15) Un_insert_right sup_bot.right_neutral empty_set)
    moreover have "filter (\<lambda>k. k \<notin> insert (name m) (fst ` set mdls)) xs
            = filter (\<lambda>k. k \<noteq> name m \<and> k \<notin> fst ` set mdls) xs" for xs
      by (induction xs) auto
    ultimately show ?thesis using ih k False by simp
  qed
qed

lemma mixLoop_named:
  "mixLoop ms mdls = Inr out \<Longrightarrow> \<forall>p \<in> set mdls. name (snd p) = fst p
    \<Longrightarrow> \<forall>p \<in> set out. name (snd p) = fst p"
proof (induction ms arbitrary: mdls)
  case Nil
  then show ?case by simp
next
  case (Cons m ms)
  from Cons.prems(1) obtain mdls' where step: "mixStep m mdls = Inr mdls'" and rest: "mixLoop ms mdls' = Inr out"
    by (auto split: sum.splits)
  from Cons.IH [OF rest mixStep_named [OF step Cons.prems(2)]] show ?case .
qed

lemma mixLoop_Inl_TypeError: "mixLoop ms mdls = Inl e \<Longrightarrow> e = TypeError"
  by (induction ms arbitrary: mdls) (auto simp: mixStep_Inl_iff split: sum.splits)

lemma mixLoop_total:
  "\<forall>m \<in> set ms. name m \<notin> set objectPrototypeKeys \<Longrightarrow> \<exists>out. mixLoop ms mdls = Inr out"
proof (induction ms arbitrary: mdls)
  case Nil
  then show ?case by simp
next
  case (Cons m ms)
  then have "\<exists>mdls'. mixStep m mdls = Inr mdls'"
    by (cases "mixStep m mdls") (auto simp: mixStep_Inl_iff)
  with Cons show ?case by auto
qed

lemma mixLoop_distinct:
  assumes "mixLoop ms mdls = Inr out" and "distinct (map fst mdls)"
  shows "distinct (map fst out)"
  using assms(2) by (auto simp: mixLoop_keys [OF assms(1)] firstSeen_distinct)

lemma mixModels_Inr:
  "mixModels ms = Inr out \<longleftrightarrow> (\<exists>mdls. mixLoop ms [] = Inr mdls \<and> out = Object_values mdls)"
  by (auto simp: mixModels_def split: sum.splits)

lemma mixModels_names:
  assumes "mixModels ms = Inr out"
  shows "map name out =
     sort_key digitsValue (filter isArrayIndex (firstSeen (map name ms)))
     @ filter (\<lambda>k. \<not> isArrayIndex k) (firstSeen (map name ms))"
proof -
  from assms obtain mdls where loop: "mixLoop ms [] = Inr mdls" and out: "out = Object_values mdls"
    by (auto simp: mixModels_Inr)
  from mixLoop_named [OF loop] have "\<forall>p \<in> set mdls. name (snd p) = fst p" by simp
  then have "map name out = map fst (ownPropertyOrder mdls)"
    using out by (simp add: Object_values_names)
  moreover from mixLoop_keys [OF loop] have "map fst mdls = firstSeen (map name ms)" by simp
  ultimately show ?thesis by (simp add: ownPropertyOrder_keys)
qed

lemma mixModels_total:
  "\<forall>m \<in> set ms. name m \<notin> set objectPrototypeKeys \<Longrightarrow> \<exists>out. mixModels ms = Inr out"
  using mixLoop_total [of ms "[]"] by (auto simp: mixModels_def)

lemma mixLoop_all_new:
  "distinct (map name ms) \<Longrightarrow> \<forall>m \<in> set ms. name m \<notin> fst ` set mdls \<and> name m \<notin> set objectPrototypeKeys
    \<Longrightarrow> mixLoop ms mdls = Inr (mdls @ map (\<lambda>m. (name m, m)) ms)"
proof (induction ms arbitrary: mdls)
  case Nil
  show ?case by simp
next
  case (Cons m ms)
  then have step: "mixStep m mdls = Inr (mdls @ [(name m, m)])"
    by (simp add: mixStep_Undefined js_set_def update_absent)
  have "mixLoop ms (mdls @ [(name m, m)]) = Inr ((mdls @ [(name m, m)]) @ map (\<lambda>m. (name m, m)) ms)"
    using Cons.prems by (intro Cons.IH) (auto simp: image_iff)
  with step show ?case by simp
qed

lemma disjoint_insert_subset:
  "A' \<subseteq> insert k A \<Longrightarrow> A \<inter> P = {} \<Longrightarrow> k \<notin> P \<Longrightarrow> A' \<inter> P = {}"
  by blast

text \<open>
  A model whose name is one of the names \<open>Object.prototype\<close> answers for makes
  \<open>mixModels\<close> throw, and nothing else does.
\<close>

lemma mixLoop_inherited:
  "fst ` set mdls \<inter> set objectPrototypeKeys = {}
    \<Longrightarrow> \<exists>m \<in> set ms. name m \<in> set objectPrototypeKeys
    \<Longrightarrow> mixLoop ms mdls = Inl TypeError"
proof (induction ms arbitrary: mdls)
  case Nil
  then show ?case by simp
next
  case (Cons m ms)
  show ?case
  proof (cases "name m \<in> set objectPrototypeKeys")
    case True
    with Cons.prems(1) have "name m \<notin> fst ` set mdls" by blast
    with True show ?thesis by (simp add: mixStep_Inherited)
  next
    case False
    then obtain mdls' where step: "mixStep m mdls = Inr mdls'"
      by (cases "mixStep m mdls") (auto simp: mixStep_Inl_iff)
    have "fst ` set mdls' \<subseteq> insert (name m) (fst ` set mdls)"
    proof (cases "name m \<in> fst ` set mdls")
      case True
      with mixStep_keys [OF step] have "map fst mdls' = map fst mdls" by simp
      then have "set (map fst mdls') = set (map fst mdls)" by (rule arg_cong)
      then show ?thesis by (simp only: set_map) blast
    next
      case False
      with mixStep_keys [OF step] have "map fst mdls' = map fst mdls @ [name m]" by simp
      then have "set (map fst mdls') = set (map fst mdls @ [name m])" by (rule arg_cong)
      then show ?thesis by (simp only: set_map set_append list.set) blast
    qed
    then have "fst ` set mdls' \<inter> set objectPrototypeKeys = {}"
      using Cons.prems(1) False by (rule disjoint_insert_subset)
    moreover from False Cons.prems(2) have "\<exists>m \<in> set ms. name m \<in> set objectPrototypeKeys"
      by simp
    ultimately have "mixLoop ms mdls' = Inl TypeError" by (rule Cons.IH)
    with step show ?thesis by simp
  qed
qed

lemma mixModels_Inl_iff:
  "mixModels ms = Inl e \<longleftrightarrow> e = TypeError \<and> (\<exists>m \<in> set ms. name m \<in> set objectPrototypeKeys)"
proof
  assume l: "mixModels ms = Inl e"
  then have loop: "mixLoop ms [] = Inl e" by (simp add: mixModels_def split: sum.splits)
  have "\<exists>m \<in> set ms. name m \<in> set objectPrototypeKeys"
  proof (rule ccontr)
    assume "\<not> (\<exists>m \<in> set ms. name m \<in> set objectPrototypeKeys)"
    then have "\<exists>out. mixLoop ms [] = Inr out" by (intro mixLoop_total) simp
    with loop show False by simp
  qed
  with loop show "e = TypeError \<and> (\<exists>m \<in> set ms. name m \<in> set objectPrototypeKeys)"
    by (simp add: mixLoop_Inl_TypeError)
next
  assume "e = TypeError \<and> (\<exists>m \<in> set ms. name m \<in> set objectPrototypeKeys)"
  then show "mixModels ms = Inl e"
    using mixLoop_inherited [of "[]" ms] by (simp add: mixModels_def)
qed

section \<open>Entity Merger: order and uniqueness of the output\<close>

text \<open>
  C1, as amended. For every input in which no entity is named like a property inherited
  from \<open>Object.prototype\<close>, \<open>mixModels\<close> returns a list whose names are: the names that
  are array indices, in ascending numeric order, followed by all other names in the order
  in which they are first seen in the input. When no name is an array index, the output is
  in first-seen order throughout.
\<close>

theorem mixModels_order:
  assumes "\<forall>m \<in> set inputModels. name m \<notin> set objectPrototypeKeys"
  shows "\<exists>out. mixModels inputModels = Inr out
           \<and> map name out =
               sort_key digitsValue (filter isArrayIndex (firstSeen (map name inputModels)))
               @ filter (\<lambda>k. \<not> isArrayIndex k) (firstSeen (map name inputModels))
           \<and> ((\<forall>m \<in> set inputModels. \<not> isArrayIndex (name m))
                \<longrightarrow> map name out = firstSeen (map name inputModels))"
proof -
  from mixModels_total [OF assms] obtain out where out: "mixModels inputModels = Inr out" ..
  note names = mixModels_names [OF out]
  have "map name out = firstSeen (map name inputModels)"
    if "\<forall>m \<in> set inputModels. \<not> isArrayIndex (name m)"
  proof -
    from that have "\<forall>k \<in> set (firstSeen (map name inputModels)). \<not> isArrayIndex k"
      by (simp add: firstSeen_set)
    then show ?thesis using names by (simp add: filter_id_conv filter_empty_conv)
  qed
  with out names show ?thesis by blast
qed

theorem mixModels_order_witness:
  "(\<exists>out. mixModels [mkModel ''b'' [], mkModel ''10'' [], mkModel ''a'' [], mkModel ''9'' [],
                      mkModel ''b'' [mkField ''x'' 1]] = Inr out
          \<and> map name out = [''9'', ''10'', ''b'', ''a''])
   \<and> (\<exists>out. mixModels [mkModel ''User'' [], mkModel ''Post'' [], mkModel ''User'' [mkField ''id'' 1],
                      mkModel ''Tag'' [], mkModel ''Post'' []] = Inr out
          \<and> map name out = [''User'', ''Post'', ''Tag''])"
  using mixModels_order [of "[mkModel ''b'' [], mkModel ''10'' [], mkModel ''a'' [], mkModel ''9'' [],
                              mkModel ''b'' [mkField ''x'' 1]]"]
        mixModels_order [of "[mkModel ''User'' [], mkModel ''Post'' [], mkModel ''User'' [mkField ''id'' 1],
                              mkModel ''Tag'' [], mkModel ''Post'' []]"]
  by (simp add: mkModel_def objectPrototypeKeys_def isArrayIndex_def isDigit_def digitsValue_def)

text \<open>
  The claim as written, which promises first-seen order also for names that look like
  integers, fails: \<open>b\<close> is seen before \<open>1\<close>, and \<open>1\<close> comes out first.
\<close>

theorem mixModels_order_counterexample:
  "mixModels [mkModel ''b'' [], mkModel ''1'' []] = Inr [mkModel ''1'' [], mkModel ''b'' []]
   \<and> map name [mkModel ''1'' [], mkModel ''b'' []]
       \<noteq> firstSeen (map name [mkModel ''b'' [], mkModel ''1'' []])"
  by (simp add: mixModels_def mixStep_def js_get_def js_set_def objectPrototypeKeys_def
        Object_values_def ownPropertyOrder_def isArrayIndex_def isDigit_def digitsValue_def mkModel_def)

text \<open>
  C8. Whatever the input, a list returned by \<open>mixModels\<close> has no two entities of the
  same name; and a list is returned whenever no entity is named like a property inherited
  from \<open>Object.prototype\<close>.
\<close>

theorem mixModels_names_distinct:
  "(\<forall>out. mixModels inputModels = Inr out \<longrightarrow> distinct (map name out))
   \<and> ((\<forall>m \<in> set inputModels. name m \<notin> set objectPrototypeKeys)
        \<longrightarrow> (\<exists>out. mixModels inputModels = Inr out))"
proof (intro conjI allI impI)
  fix out
  assume "mixModels inputModels = Inr out"
  then obtain mdls where loop: "mixLoop inputModels [] = Inr mdls" and out: "out = Object_values mdls"
    by (auto simp: mixModels_Inr)
  from mixLoop_named [OF loop] have "\<forall>p \<in> set mdls. name (snd p) = fst p" by simp
  then have "map name out = map fst (ownPropertyOrder mdls)"
    using out by (simp add: Object_values_names)
  moreover from mixLoop_distinct [OF loop] have "distinct (map fst mdls)" by simp
  ultimately show "distinct (map name out)" by (simp add: ownPropertyOrder_distinct)
next
  assume "\<forall>m \<in> set inputModels. name m \<notin> set objectPrototypeKeys"
  then show "\<exists>out. mixModels inputModels = Inr out" by (rule mixModels_total)
qed

theorem mixModels_names_distinct_witness:
  "\<exists>out. mixModels [mkModel ''User'' [], mkModel ''Post'' [], mkModel ''User'' [mkField ''id'' 1]] = Inr out
         \<and> distinct (map name out)"
  using mixModels_names_distinct [of "[mkModel ''User'' [], mkModel ''Post'' [], mkModel ''User'' [mkField ''id'' 1]]"]
  by (auto simp: mkModel_def objectPrototypeKeys_def)

section \<open>Entity Merger: fragment boundaries\<close>

text \<open>
  C10. Merging is insensitive to fragment boundaries: walking the fragments' entity lists
  one after the other with one mapping gives the result of \<open>mixModels\<close> on their
  concatenation, hence the same result as merging the concatenation as a single
  fragment; and the list the orchestrator builds before its one call of \<open>mixModels\<close> is
  that concatenation.
\<close>

theorem mergeFragments_flatten:
  fixes entityLists :: "('a, 'b) Model list list"
    and schemasToMix :: "('a, 'b, 'e, 'd, 'g) Schema list"
  shows "mergeFragments entityLists = mixModels (concat entityLists)
         \<and> mergeFragments entityLists = mergeFragments [concat entityLists]
         \<and> mixModels (flattenModels schemasToMix) = mergeFragments (map models schemasToMix)"
proof -
  have walk: "mixFragments ls mdls = mixLoop (concat ls) mdls"
    for ls :: "('a, 'b) Model list list" and mdls
  proof (induction ls arbitrary: mdls)
    case Nil
    show ?case by simp
  next
    case (Cons l ls)
    show ?case
    proof (cases "mixLoop l mdls")
      case (Inl e)
      then show ?thesis by (simp add: mixLoop_append)
    next
      case (Inr mdls')
      with Cons.IH [of mdls'] show ?thesis by (simp add: mixLoop_append)
    qed
  qed
  have merged: "mergeFragments ls = mixModels (concat ls)" for ls :: "('a, 'b) Model list list"
    by (simp add: mergeFragments_def mixModels_def walk)
  have "fold (\<lambda>schema ms. ms @ models schema) schemas acc = acc @ concat (map models schemas)"
    for schemas :: "('a, 'b, 'e, 'd, 'g) Schema list" and acc
    by (induction schemas arbitrary: acc) simp_all
  then have flat: "flattenModels schemasToMix = concat (map models schemasToMix)"
    by (simp add: flattenModels_def)
  from merged [of entityLists] merged [of "[concat entityLists]"] merged [of "map models schemasToMix"] flat
  show ?thesis by simp
qed

theorem mergeFragments_flatten_witness:
  "mixModels (flattenModels
      [\<lparr>models = [mkModel ''User'' [mkField ''id'' 1, mkField ''name'' 2]],
        enums = Some [''Role''], datasources = [''pg''], generators = [''client'']\<rparr>,
       \<lparr>models = [mkModel ''User'' [mkField ''name'' 3, mkField ''email'' 4],
                  mkModel ''Post'' [mkField ''id'' 5]],
        enums = Some [''Role''], datasources = [], generators = []\<rparr>])
     = Inr [mkModel ''User'' [mkField ''id'' 1, mkField ''name'' 3, mkField ''email'' 4],
            mkModel ''Post'' [mkField ''id'' 5]]
   \<and> mergeFragments [[mkModel ''User'' [mkField ''id'' 1, mkField ''name'' 2]],
                     [mkModel ''User'' [mkField ''name'' 3, mkField ''email'' 4],
                      mkModel ''Post'' [mkField ''id'' 5]]]
     = Inr [mkModel ''User'' [mkField ''id'' 1, mkField ''name'' 3, mkField ''email'' 4],
            mkModel ''Post'' [mkField ''id'' 5]]"
proof -
  have "mixModels [mkModel ''User'' [mkField ''id'' 1, mkField ''name'' 2],
           mkModel ''User'' [mkField ''name'' 3, mkField ''email'' 4], mkModel ''Post'' [mkField ''id'' 5]]
     = Inr [mkModel ''User'' [mkField ''id'' 1, mkField ''name'' 3, mkField ''email'' 4],
            mkModel ''Post'' [mkField ''id'' 5]]"
    by (simp add: mixModels_def mixStep_def js_get_def js_set_def objectPrototypeKeys_def
        Object_values_def ownPropertyOrder_def isArrayIndex_def isDigit_def mkModel_def mkField_def)
  then show ?thesis
    using mergeFragments_flatten
      [of "[[mkModel ''User'' [mkField ''id'' 1, mkField ''name'' 2]],
            [mkModel ''User'' [mkField ''name'' 3, mkField ''email'' 4],
             mkModel ''Post'' [mkField ''id'' 5]]]"
          "[\<lparr>models = [mkModel ''User'' [mkField ''id'' 1, mkField ''name'' 2]],
             enums = Some [''Role''], datasources = [''pg''], generators = [''client'']\<rparr>,
            \<lparr>models = [mkModel ''User'' [mkField ''name'' 3, mkField ''email'' 4],
                       mkModel ''Post'' [mkField ''id'' 5]],
             enums = Some [''Role''], datasources = [], generators = []\<rparr>]"]
    by simp
qed

section \<open>Entity Merger: a single fragment\<close>

text \<open>
  C9, as amended. An entity list whose names are pairwise distinct, none of them an array
  index and none the name of a property inherited from \<open>Object.prototype\<close>, is returned
  unchanged by \<open>mixModels\<close>: the same entities in the same order, each with its field
  list as it was.
\<close>

theorem mixModels_single_fragment:
  assumes "distinct (map name E)"
      and "\<forall>m \<in> set E. \<not> isArrayIndex (name m) \<and> name m \<notin> set objectPrototypeKeys"
  shows "mixModels E = Inr E"
proof -
  from assms have "mixLoop E [] = Inr (map (\<lambda>m. (name m, m)) E)"
    using mixLoop_all_new [of E "[]"] by simp
  moreover have "ownPropertyOrder (map (\<lambda>m. (name m, m)) E) = map (\<lambda>m. (name m, m)) E"
    using assms(2) by (intro ownPropertyOrder_no_index) auto
  ultimately show ?thesis by (simp add: mixModels_def Object_values_def comp_def)
qed

theorem mixModels_single_fragment_witness:
  "mixModels [mkModel ''User'' [mkField ''id'' 1, mkField ''id'' 2], mkModel ''Post'' []]
     = Inr [mkModel ''User'' [mkField ''id'' 1, mkField ''id'' 2], mkModel ''Post'' []]"
  using mixModels_single_fragment [of "[mkModel ''User'' [mkField ''id'' 1, mkField ''id'' 2], mkModel ''Post'' []]"]
  by (simp add: mkModel_def objectPrototypeKeys_def isArrayIndex_def isDigit_def)

text \<open>
  The claim as written, for every entity list, fails: two entities of one name in the
  list are merged into one, and names that are array indices move to the front.
\<close>

theorem mixModels_single_fragment_counterexample:
  "mixModels [mkModel ''User'' [mkField ''id'' 1], mkModel ''User'' [mkField ''email'' 2]]
     = Inr [mkModel ''User'' [mkField ''id'' 1, mkField ''email'' 2]]
   \<and> mixModels [mkModel ''User'' [], mkModel ''2'' [], mkModel ''1'' []]
     = Inr [mkModel ''1'' [], mkModel ''2'' [], mkModel ''User'' []]"
  by (simp add: mixModels_def mixStep_def js_get_def js_set_def objectPrototypeKeys_def
        Object_values_def ownPropertyOrder_def isArrayIndex_def isDigit_def digitsValue_def mkModel_def mkField_def)

section \<open>Entity Merger: two entities of one name\<close>

text \<open>
  Outside the names \<open>Object.prototype\<close> answers for, two entities of one name are
  merged as intended: with \<open>A\<close> carrying the fields \<open>[f1, f2]\<close> and \<open>A'\<close> the fields
  \<open>[f2', f3]\<close>, where \<open>f2'\<close> has the field name of \<open>f2\<close> and \<open>f1\<close>, \<open>f2\<close>, \<open>f3\<close> are
  differently named, the result is the one entity \<open>A\<close> with the fields \<open>[f1, f2', f3]\<close>.
\<close>

lemma mixModels_two_of_one_name:
  assumes "name A' = name A" and "name A \<notin> set objectPrototypeKeys"
      and "model_fields A = [f1, f2]" and "model_fields A' = [f2', f3]"
      and "field_name f2' = field_name f2"
      and "distinct [field_name f1, field_name f2, field_name f3]"
  shows "mixModels [A, A'] = Inr [A\<lparr>model_fields := [f1, f2', f3]\<rparr>]"
proof -
  have first: "mixStep A [] = Inr [(name A, A)]"
    using assms(2) by (simp add: mixStep_Undefined js_set_def)
  have "mergeFields [field_name f1, field_name f2] [f1, f2] [f2', f3] = [f1, f2', f3]"
    using assms(5,6) by auto
  then have "mixStep A' [(name A, A)] = Inr [(name A, A\<lparr>model_fields := [f1, f2', f3]\<rparr>)]"
    using assms(1,3,4) by (simp add: mixStep_Own [of _ _ A] js_set_def)
  with first show ?thesis by (simp add: mixModels_def Object_values_single)
qed

text \<open>
  With such a name the first round already fails, whatever the fields are: the lookup
  finds the inherited value, takes the branch meant for a model that already exists in
  the found models, and throws.
\<close>

lemma mixModels_two_of_one_name_inherited:
  assumes "name A \<in> set objectPrototypeKeys"
  shows "mixModels [A, A'] = Inl TypeError"
  using assms by (simp add: mixModels_Inl_iff)

text \<open>
  C2. For entities \<open>A\<close> and \<open>A'\<close> sharing a name, with fields \<open>[f1, f2]\<close> and
  \<open>[f2', f3]\<close>, merging \<open>A\<close> and then \<open>A'\<close> is to give one entity of that name with the
  fields \<open>[f1, f2', f3]\<close>. The code does so for the name \<open>User\<close>, and throws a TypeError
  for the name \<open>constructor\<close>, which is as good an entity name as any other: the claim holds
  of the intended merge and the code misses the names inherited from \<open>Object.prototype\<close>.
\<close>

theorem mixModels_constructor_throws:
  "mixModels [mkModel ''constructor'' [mkField ''id'' 1, mkField ''name'' 2],
              mkModel ''constructor'' [mkField ''name'' 3, mkField ''email'' 4]]
     = Inl TypeError
   \<and> mixModels [mkModel ''User'' [mkField ''id'' 1, mkField ''name'' 2],
              mkModel ''User'' [mkField ''name'' 3, mkField ''email'' 4]]
     = Inr [mkModel ''User'' [mkField ''id'' 1, mkField ''name'' 3, mkField ''email'' 4]]"
  by (simp add: mixModels_def mixStep_def js_get_def js_set_def objectPrototypeKeys_def
        Object_values_def ownPropertyOrder_def isArrayIndex_def isDigit_def mkModel_def mkField_def)

section \<open>Entity Merger: field reconciliation\<close>

lemma mergeFields_snoc:
  "mergeFields names acc (new @ [f]) =
     (if field_name f \<in> set names
      then (mergeFields names acc new)[nat (indexOf names (field_name f)) := f]
      else mergeFields names acc new @ [f])"
  by (induction new arbitrary: acc) auto

lemma aimsAt_index:
  "aimsAt old i f \<longleftrightarrow>
     field_name f \<in> set (map field_name old) \<and> nat (indexOf (map field_name old) (field_name f)) = i"
proof (cases "field_name f \<in> set (map field_name old)")
  case True
  from indexOf_eq_iff [OF True, of i] True show ?thesis
    by (auto simp: aimsAt_def take_map)
next
  case False
  have "\<not> aimsAt old i f"
  proof
    assume "aimsAt old i f"
    then have "i < length old" and "field_name (old ! i) = field_name f"
      by (simp_all add: aimsAt_def)
    then have "field_name f \<in> field_name ` set old" by (metis nth_mem imageI)
    with False show False by simp
  qed
  with False show ?thesis by simp
qed

lemma mergeFields_reconciled:
  "mergeFields (map field_name old) old new = reconciled old new"
proof (induction new rule: rev_induct)
  case Nil
  have "slotAfter old [] = (\<lambda>i. old ! i)" by (simp add: slotAfter_def fun_eq_iff)
  then show ?case by (simp add: reconciled_def map_nth)
next
  case (snoc f new)
  let ?names = "map field_name old"
  show ?case
  proof (cases "field_name f \<in> set ?names")
    case True
    let ?i = "nat (indexOf ?names (field_name f))"
    from indexOf_present [OF True] have i: "?i < length old" by simp
    have slots: "(map (slotAfter old new) [0..<length old])[?i := f]
                   = map (slotAfter old (new @ [f])) [0..<length old]"
    proof (rule nth_equalityI)
      show "length ((map (slotAfter old new) [0..<length old])[?i := f])
              = length (map (slotAfter old (new @ [f])) [0..<length old])" by simp
    next
      fix j
      assume "j < length ((map (slotAfter old new) [0..<length old])[?i := f])"
      then have j: "j < length old" by simp
      show "(map (slotAfter old new) [0..<length old])[?i := f] ! j
              = map (slotAfter old (new @ [f])) [0..<length old] ! j"
      proof (cases "j = ?i")
        case True
        then have "aimsAt old j f" using \<open>field_name f \<in> set ?names\<close> by (simp add: aimsAt_index)
        then have "slotAfter old (new @ [f]) j = f"
          by (simp add: slotAfter_def)
        with True j show ?thesis by simp
      next
        case False
        then have "\<not> aimsAt old j f" by (auto simp: aimsAt_index)
        then have "slotAfter old (new @ [f]) j = slotAfter old new j"
          by (simp add: slotAfter_def)
        with False j show ?thesis by simp
      qed
    qed
    from True have "mergeFields ?names old (new @ [f]) = (reconciled old new)[?i := f]"
      by (simp add: mergeFields_snoc snoc.IH)
    also have "\<dots> = reconciled old (new @ [f])"
      using i True slots by (simp add: reconciled_def list_update_append1)
    finally show ?thesis .
  next
    case False
    then have "\<not> aimsAt old j f" for j by (simp add: aimsAt_index)
    then have "slotAfter old (new @ [f]) = slotAfter old new"
      by (simp add: slotAfter_def fun_eq_iff)
    with False show ?thesis by (simp add: mergeFields_snoc snoc.IH reconciled_def)
  qed
qed

text \<open>
  C3, as amended. When the name of the new entity is already an own key of the mapping,
  its fields are reconciled in order against the field names the accumulated entity had
  when this reconciliation began: a new field whose name is among them replaces the field
  at the first position of that name, and any other new field is appended at the end. The
  fields appended during this reconciliation are not consulted. So two fields of one name
  within the new entity are both appended when the accumulated entity had no field of
  that name, and write to the same position, the second last, when it had one.
\<close>

theorem mixStep_reconciles_against_snapshot:
  assumes "map_of mdls (name newModel) = Some existingModel"
  shows "mixStep newModel mdls =
           Inr (js_set mdls (name newModel)
                  (existingModel\<lparr>model_fields :=
                     reconciled (model_fields existingModel) (model_fields newModel)\<rparr>))
         \<and> (field_name g' = field_name g \<and> field_name g \<notin> set (map field_name old)
              \<longrightarrow> reconciled old [g, g'] = old @ [g, g'])
         \<and> (field_name g' = field_name g \<and> field_name g \<in> set (map field_name old)
              \<longrightarrow> reconciled old [g, g']
                    = old[nat (indexOf (map field_name old) (field_name g)) := g'])"
proof (intro conjI impI)
  show "mixStep newModel mdls =
           Inr (js_set mdls (name newModel)
                  (existingModel\<lparr>model_fields :=
                     reconciled (model_fields existingModel) (model_fields newModel)\<rparr>))"
    using assms by (simp add: mixStep_Own mergeFields_reconciled)
next
  assume "field_name g' = field_name g \<and> field_name g \<notin> set (map field_name old)"
  then have "mergeFields (map field_name old) old [g, g'] = old @ [g, g']" by simp
  then show "reconciled old [g, g'] = old @ [g, g']" by (simp only: mergeFields_reconciled)
next
  assume "field_name g' = field_name g \<and> field_name g \<in> set (map field_name old)"
  then have "mergeFields (map field_name old) old [g, g']
               = old[nat (indexOf (map field_name old) (field_name g)) := g']" by simp
  then show "reconciled old [g, g'] = old[nat (indexOf (map field_name old) (field_name g)) := g']"
    by (simp only: mergeFields_reconciled)
qed

theorem mixStep_reconciles_against_snapshot_witness:
  "mixStep (mkModel ''User'' [mkField ''name'' 3, mkField ''email'' 4, mkField ''email'' 5])
           [(''User'', mkModel ''User'' [mkField ''id'' 1, mkField ''name'' 2])]
     = Inr [(''User'', mkModel ''User'' [mkField ''id'' 1, mkField ''name'' 3,
                                          mkField ''email'' 4, mkField ''email'' 5])]
   \<and> reconciled [mkField ''id'' 1] [mkField ''email'' 4, mkField ''email'' 5]
       = [mkField ''id'' 1, mkField ''email'' 4, mkField ''email'' 5]
   \<and> reconciled [mkField ''id'' 1] [mkField ''id'' 4, mkField ''id'' 5] = [mkField ''id'' 5]"
  using mixStep_reconciles_against_snapshot
          [of "[(''User'', mkModel ''User'' [mkField ''id'' 1, mkField ''name'' 2])]"
              "mkModel ''User'' [mkField ''name'' 3, mkField ''email'' 4, mkField ''email'' 5]"
              "mkModel ''User'' [mkField ''id'' 1, mkField ''name'' 2]"
              "mkField ''email'' 5" "mkField ''email'' 4" "[mkField ''id'' 1]"]
        mixStep_reconciles_against_snapshot
          [of "[(''User'', mkModel ''User'' [mkField ''id'' 1, mkField ''name'' 2])]"
              "mkModel ''User'' [mkField ''name'' 3, mkField ''email'' 4, mkField ''email'' 5]"
              "mkModel ''User'' [mkField ''id'' 1, mkField ''name'' 2]"
              "mkField ''id'' 5" "mkField ''id'' 4" "[mkField ''id'' 1]"]
  by (simp add: mkModel_def mkField_def js_set_def reconciled_def slotAfter_def aimsAt_def)

text \<open>
  The claim as written, in which a field appended earlier in the same reconciliation is
  found and replaced, fails: both \<open>email\<close> fields of the second entity are in the result.
\<close>

theorem mixStep_reconciles_against_snapshot_counterexample:
  "mixModels [mkModel ''User'' [mkField ''id'' 1],
              mkModel ''User'' [mkField ''email'' 2, mkField ''email'' 3]]
     = Inr [mkModel ''User'' [mkField ''id'' 1, mkField ''email'' 2, mkField ''email'' 3]]
   \<and> mixModels [mkModel ''User'' [mkField ''id'' 1],
              mkModel ''User'' [mkField ''email'' 2, mkField ''email'' 3]]
     \<noteq> Inr [mkModel ''User'' [mkField ''id'' 1, mkField ''email'' 3]]"
  by (simp add: mixModels_def mixStep_def js_get_def js_set_def objectPrototypeKeys_def
        Object_values_def ownPropertyOrder_def isArrayIndex_def isDigit_def mkModel_def mkField_def)

section \<open>Composition Orchestrator\<close>

text \<open>
  C7, as amended. When the fragments of a job load, the merge succeeds and the four
  sections render, the text written to the job's output path is: the renderings of the
  datasources, the generators, the entities and the enumerations, in this order, without
  those that are empty, joined by three line breaks (two blank lines).
\<close>

theorem runMixer_output_text:
  assumes "loadSchemas env w (mixer_input mixer) = Inr schemasToMix"
      and "mixModels (flattenModels schemasToMix) = Inr ms"
      and "deserializeDatasources env (reduceSingletons (map datasources schemasToMix)) = Inr d"
      and "deserializeGenerators env (reduceSingletons (map generators schemasToMix)) = Inr g"
      and "deserializeModels env ms = Inr m"
      and "deserializeEnums env (reduceEnums (map enums schemasToMix)) = Inr en"
  shows "runMixer env mixer w =
           writeFile env (resolvePath env (mixer_output mixer))
             (joinStrings ''\<newline>\<newline>\<newline>'' (filter (\<lambda>e. e \<noteq> []) [d, g, m, en])) w"
proof -
  from assms(3-6)
  have "renderSections env (reduceSingletons (map datasources schemasToMix))
          (reduceSingletons (map generators schemasToMix)) ms
          (reduceEnums (map enums schemasToMix)) = Inr [d, g, m, en]"
    by (simp add: renderSections_def)
  with assms(1,2)
  have "runMixer env mixer w =
          writeFile env (resolvePath env (mixer_output mixer)) (outputSchema [d, g, m, en]) w"
    by (simp add: runMixer_def)
  then show ?thesis by (simp only: outputSchema_def)
qed

theorem runMixer_output_text_witness:
  "runMixer memEnv \<lparr>mixer_input = [''b.prisma''], mixer_output = ''out.prisma''\<rparr> someFiles
     = (Inr (), someFiles(''/cwd/out.prisma'' \<mapsto> ''Post\<newline>\<newline>\<newline>Post''))"
  using runMixer_output_text [of memEnv someFiles
          "\<lparr>mixer_input = [''b.prisma''], mixer_output = ''out.prisma''\<rparr>"
          "[\<lparr>models = [mkModel ''Post'' []], enums = Some [], datasources = [''Post''], generators = []\<rparr>]"
          "[mkModel ''Post'' []]" "''Post''" "[]" "''Post''" "[]"]
  by (simp add: memEnv_def someFiles_def getSchema_def flattenModels_def reduceSingletons_def
        reduceEnums_def mixModels_def mixStep_def js_get_def js_set_def objectPrototypeKeys_def
        Object_values_def ownPropertyOrder_def isArrayIndex_def isDigit_def mkModel_def)

text \<open>
  The claim as written, with a double line break as separator, fails: the two non-empty
  sections of this job are three line breaks apart in the file written.
\<close>

theorem runMixer_output_text_counterexample:
  "snd (runMixer memEnv \<lparr>mixer_input = [''b.prisma''], mixer_output = ''out.prisma''\<rparr> someFiles)
       ''/cwd/out.prisma'' = Some ''Post\<newline>\<newline>\<newline>Post''
   \<and> snd (runMixer memEnv \<lparr>mixer_input = [''b.prisma''], mixer_output = ''out.prisma''\<rparr> someFiles)
       ''/cwd/out.prisma''
       \<noteq> Some (joinStrings ''\<newline>\<newline>'' (filter (\<lambda>e. e \<noteq> []) [''Post'', [], ''Post'', []]))"
  by (simp add: runMixer_def renderSections_def outputSchema_def
        memEnv_def someFiles_def getSchema_def flattenModels_def reduceSingletons_def
        reduceEnums_def mixModels_def mixStep_def js_get_def js_set_def objectPrototypeKeys_def
        Object_values_def ownPropertyOrder_def isArrayIndex_def isDigit_def mkModel_def)

lemma prismixLoop_append:
  "prismixLoop env (before @ rest) w =
     (case prismixLoop env before w of
        (Inl e, w') \<Rightarrow> (Inl e, w')
      | (Inr u, w') \<Rightarrow> prismixLoop env rest w')"
  by (induction before arbitrary: w) (auto split: prod.splits sum.splits)

text \<open>
  C6, as amended. A failure in one job ends the whole invocation: when the jobs before it
  have run and the job fails, \<open>prismix\<close> fails with that job's error, in the world that job
  left behind, whatever jobs come later; none of them is run. A job that fails while
  loading one of its inputs writes nothing.
\<close>

theorem prismix_stops_at_first_failure:
  "(prismixLoop env before w = (Inr (), w1) \<and> runMixer env failing w1 = (Inl e, w2)
      \<longrightarrow> prismix env \<lparr>mixers = before @ failing # later\<rparr> w = (Inl e, w2))
   \<and> (loadSchemas env w1 (mixer_input failing) = Inl e
      \<longrightarrow> runMixer env failing w1 = (Inl e, w1))"
proof (intro conjI impI)
  assume run: "prismixLoop env before w = (Inr (), w1) \<and> runMixer env failing w1 = (Inl e, w2)"
  then have "prismixLoop env (before @ failing # later) w = prismixLoop env (failing # later) w1"
    by (simp add: prismixLoop_append)
  also from run have "\<dots> = (Inl e, w2)" by simp
  finally show "prismix env \<lparr>mixers = before @ failing # later\<rparr> w = (Inl e, w2)"
    by (simp add: prismix_def)
next
  assume "loadSchemas env w1 (mixer_input failing) = Inl e"
  then show "runMixer env failing w1 = (Inl e, w1)" by (simp add: runMixer_def)
qed

theorem prismix_stops_at_first_failure_witness:
  "prismix memEnv \<lparr>mixers = [\<lparr>mixer_input = [''b.prisma''], mixer_output = ''out1.prisma''\<rparr>,
                              \<lparr>mixer_input = [''a.prisma''], mixer_output = ''out2.prisma''\<rparr>,
                              \<lparr>mixer_input = [''b.prisma''], mixer_output = ''out3.prisma''\<rparr>]\<rparr> someFiles
     = (Inl (IOError ''/cwd/a.prisma''), someFiles(''/cwd/out1.prisma'' \<mapsto> ''Post\<newline>\<newline>\<newline>Post''))"
  using prismix_stops_at_first_failure [of memEnv
          "[\<lparr>mixer_input = [''b.prisma''], mixer_output = ''out1.prisma''\<rparr>]"
          someFiles "someFiles(''/cwd/out1.prisma'' \<mapsto> ''Post\<newline>\<newline>\<newline>Post'')"
          "\<lparr>mixer_input = [''a.prisma''], mixer_output = ''out2.prisma''\<rparr>"
          "IOError ''/cwd/a.prisma''" "someFiles(''/cwd/out1.prisma'' \<mapsto> ''Post\<newline>\<newline>\<newline>Post'')"
          "[\<lparr>mixer_input = [''b.prisma''], mixer_output = ''out3.prisma''\<rparr>]"]
  by (simp add: runMixer_def renderSections_def outputSchema_def
        memEnv_def someFiles_def getSchema_def flattenModels_def reduceSingletons_def
        reduceEnums_def mixModels_def mixStep_def js_get_def js_set_def objectPrototypeKeys_def
        Object_values_def ownPropertyOrder_def isArrayIndex_def isDigit_def mkModel_def)

text \<open>
  The claim as written, that a later job with valid inputs still produces its output,
  fails: the first job's input does not exist, and the output of the second job, which
  on its own succeeds, is never written.
\<close>

theorem prismix_job_isolation_counterexample:
  "fst (prismix memEnv \<lparr>mixers = [\<lparr>mixer_input = [''a.prisma''], mixer_output = ''out1.prisma''\<rparr>,
                                   \<lparr>mixer_input = [''b.prisma''], mixer_output = ''out2.prisma''\<rparr>]\<rparr> someFiles)
     = Inl (IOError ''/cwd/a.prisma'')
   \<and> snd (prismix memEnv \<lparr>mixers = [\<lparr>mixer_input = [''a.prisma''], mixer_output = ''out1.prisma''\<rparr>,
                                   \<lparr>mixer_input = [''b.prisma''], mixer_output = ''out2.prisma''\<rparr>]\<rparr> someFiles)
        ''/cwd/out2.prisma'' = None
   \<and> prismix memEnv \<lparr>mixers = [\<lparr>mixer_input = [''b.prisma''], mixer_output = ''out2.prisma''\<rparr>]\<rparr> someFiles
     = (Inr (), someFiles(''/cwd/out2.prisma'' \<mapsto> ''Post\<newline>\<newline>\<newline>Post''))"
  by (simp add: prismix_def runMixer_def renderSections_def outputSchema_def
        memEnv_def someFiles_def getSchema_def flattenModels_def reduceSingletons_def
        reduceEnums_def mixModels_def mixStep_def js_get_def js_set_def objectPrototypeKeys_def
        Object_values_def ownPropertyOrder_def isArrayIndex_def isDigit_def mkModel_def)

end
